theory Spec2Isabelle
  imports Complex_Main "HOL-Library.Word"
begin

unbundle bit_operations_syntax

section \<open>Data model of \<^verbatim>\<open>population.hpp\<close>\<close>

text \<open>
  A \<^verbatim>\<open>double\<close> is a NaN, one of the two infinities or a finite value; a finite value is
  read as a real number, and rounding is not represented.
\<close>

datatype double = NaN | MInf | Fin real | PInf

text \<open>
  The comparisons \<^verbatim>\<open><\<close> and \<^verbatim>\<open><=\<close> of the language on doubles: every comparison with a NaN
  is false, and the other values are ordered with \<open>-\<infinity>\<close> below and \<open>+\<infinity>\<close> above the finite
  ones.
\<close>

fun double_less :: "double \<Rightarrow> double \<Rightarrow> bool" where
  "double_less NaN b = False"
| "double_less a NaN = False"
| "double_less a MInf = False"
| "double_less MInf b = True"
| "double_less PInf b = False"
| "double_less (Fin a) PInf = True"
| "double_less (Fin a) (Fin b) = (a < b)"

definition double_le :: "double \<Rightarrow> double \<Rightarrow> bool" where
  "double_le a b \<longleftrightarrow> a \<noteq> NaN \<and> b \<noteq> NaN \<and> \<not> double_less b a"

text \<open>Negation, absolute value, addition and squaring of doubles, without rounding.\<close>

fun dneg :: "double \<Rightarrow> double" where
  "dneg NaN = NaN"
| "dneg MInf = PInf"
| "dneg (Fin a) = Fin (- a)"
| "dneg PInf = MInf"

fun dabs :: "double \<Rightarrow> double" where
  "dabs NaN = NaN"
| "dabs MInf = PInf"
| "dabs (Fin a) = Fin \<bar>a\<bar>"
| "dabs PInf = PInf"

fun dadd :: "double \<Rightarrow> double \<Rightarrow> double" where
  "dadd NaN b = NaN"
| "dadd a NaN = NaN"
| "dadd MInf PInf = NaN"
| "dadd PInf MInf = NaN"
| "dadd MInf b = MInf"
| "dadd a MInf = MInf"
| "dadd PInf b = PInf"
| "dadd a PInf = PInf"
| "dadd (Fin a) (Fin b) = Fin (a + b)"

fun dsquare :: "double \<Rightarrow> double" where
  "dsquare NaN = NaN"
| "dsquare MInf = PInf"
| "dsquare (Fin a) = Fin (a * a)"
| "dsquare PInf = PInf"

text \<open>A \<^verbatim>\<open>vector_double\<close> is a \<^verbatim>\<open>std::vector<double>\<close>.\<close>

type_synonym vector_double = "double list"

text \<open>
  The exceptions and aborts of the code. The message text of an exception is not kept.
  \<^item> \<open>invalid_argument\<close>: \<^verbatim>\<open>pagmo_throw(std::invalid_argument, ...)\<close>;
  \<^item> \<open>assertion_failure\<close>: a failed \<^verbatim>\<open>assert(...)\<close>;
  \<^item> \<open>bad_numeric_cast\<close>: \<^verbatim>\<open>boost::numeric_cast\<close> out of range;
  \<^item> \<open>overflow_error\<close>: \<^verbatim>\<open>std::overflow_error\<close> of \<^verbatim>\<open>archipelago::push_back\<close>;
  \<^item> \<open>unspecified_exception\<close>: any other exception raised by code the population calls
    (the documentation's "\<^verbatim>\<open>@throws unspecified\<close>").
\<close>

datatype exception =
  invalid_argument | assertion_failure | bad_numeric_cast | overflow_error | unspecified_exception

text \<open>
  The \<^verbatim>\<open>pagmo::problem\<close> handle is declared in \<^verbatim>\<open>problem.hpp\<close>, which is missing: the
  capabilities the population calls are the fields of a record. \<open>fitness\<close> may throw.
\<close>

record problem =
  fitness :: "vector_double \<Rightarrow> exception + vector_double"
  get_bounds :: "vector_double \<times> vector_double"
  get_nx :: nat
  get_nobj :: nat
  get_nec :: nat
  get_nic :: nat

text \<open>
  Modelled from the spec: \<^verbatim>\<open>problem::get_nf\<close> (\<^verbatim>\<open>problem.hpp\<close> is missing). The fitness
  dimension is \<open>1 + nec + nic + (nobj - 1)\<close>.
\<close>

definition get_nf :: "problem \<Rightarrow> nat" where
  "get_nf p = 1 + get_nec p + get_nic p + (get_nobj p - 1)"

text \<open>
  Modelled from the spec: \<^verbatim>\<open>problem::get_nc\<close> (\<^verbatim>\<open>problem.hpp\<close> is missing). A problem is
  unconstrained when it has neither equality nor inequality constraints; the number of
  constraints is \<open>nec + nic\<close>.
\<close>

definition get_nc :: "problem \<Rightarrow> nat" where
  "get_nc p = get_nec p + get_nic p"

text \<open>
  The random engine \<^verbatim>\<open>detail::random_engine_type\<close> is declared in \<^verbatim>\<open>rng.hpp\<close>, which is
  missing, and the algorithm of \<^verbatim>\<open>std::uniform_int_distribution\<close> is left to the
  standard library. Both are parameters: \<open>'e\<close> is the type of engine states, and
  \<^item> \<open>engine_ctor seed\<close> is the engine \<^verbatim>\<open>m_e(seed)\<close>;
  \<^item> \<open>uniform_ull e\<close> is \<^verbatim>\<open>std::uniform_int_distribution<unsigned long long>()(m_e)\<close>: the
    value drawn and the engine after the draw;
  \<^item> \<open>uniform_uint e\<close> is \<^verbatim>\<open>std::uniform_int_distribution<unsigned int>()(m_e)\<close>.
\<close>

record 'e rng_ops =
  engine_ctor :: "32 word \<Rightarrow> 'e"
  uniform_ull :: "'e \<Rightarrow> 64 word \<times> 'e"
  uniform_uint :: "'e \<Rightarrow> 32 word \<times> 'e"

text \<open>The class \<^verbatim>\<open>population\<close>: its six data members.\<close>

record 'e population =
  m_prob :: problem
  m_ID :: "64 word list"
  m_x :: "vector_double list"
  m_f :: "vector_double list"
  m_e :: 'e
  m_seed :: "32 word"

text \<open>
  \<^verbatim>\<open>size()\<close> returns \<^verbatim>\<open>m_ID.size()\<close> after two assertions; \<open>size_asserts\<close> is their
  conjunction.
\<close>

definition size_asserts :: "'e population \<Rightarrow> bool" where
  "size_asserts p \<longleftrightarrow> length (m_f p) = length (m_ID p) \<and> length (m_x p) = length (m_ID p)"

definition size_pop :: "'e population \<Rightarrow> nat" where
  "size_pop p = length (m_ID p)"

subsection \<open>\<^verbatim>\<open>push_back\<close>\<close>

text \<open>
  A member function that can throw returns the exception (\<open>None\<close> when it returns
  normally) together with the object as the call leaves it: \<^verbatim>\<open>push_back\<close> draws the new ID
  from \<^verbatim>\<open>m_e\<close> before anything can throw, so the engine has advanced on every path. The
  fitness is computed before the two dimension checks, as in the code. Memory errors of
  the containers are not represented.
\<close>

definition push_back ::
  "'e rng_ops \<Rightarrow> 'e population \<Rightarrow> vector_double \<Rightarrow> exception option \<times> 'e population" where
  "push_back R p x =
     (let r = uniform_ull R (m_e p);
          new_id = fst r;
          p1 = p\<lparr>m_e := snd r\<rparr>;
          x_copy = x
      in case fitness (m_prob p1) x of
           Inl e \<Rightarrow> (Some e, p1)
         | Inr f \<Rightarrow>
             if length x_copy \<noteq> get_nx (m_prob p1) then (Some invalid_argument, p1)
             else if length f \<noteq> get_nf (m_prob p1) then (Some invalid_argument, p1)
             else (None, p1\<lparr>m_ID := m_ID p1 @ [new_id],
                             m_x := m_x p1 @ [x_copy],
                             m_f := m_f p1 @ [f]\<rparr>))"

subsection \<open>\<^verbatim>\<open>decision_vector\<close> and the constructor\<close>

text \<open>
  \<^verbatim>\<open>pagmo::decision_vector(bounds, seed)\<close> lives in a header that is missing; it is the
  parameter \<open>dv\<close>, and it may throw. The member function is \<^verbatim>\<open>const\<close>, but \<^verbatim>\<open>m_e\<close> is
  \<^verbatim>\<open>mutable\<close> and the draw advances it.
\<close>

definition decision_vector ::
  "'e rng_ops \<Rightarrow> (vector_double \<times> vector_double \<Rightarrow> 32 word \<Rightarrow> exception + vector_double) \<Rightarrow>
   'e population \<Rightarrow> (exception + vector_double) \<times> 'e population" where
  "decision_vector R dv p =
     (let r = uniform_uint R (m_e p)
      in (dv (get_bounds (m_prob p)) (fst r), p\<lparr>m_e := snd r\<rparr>))"

text \<open>
  The body of the constructor: \<^verbatim>\<open>for (i = 0; i < pop_size; ++i) push_back(decision_vector())\<close>,
  as a recursion on the number of iterations left. An exception leaves the constructor, and
  no object exists then. The seed is always given; the default argument
  \<^verbatim>\<open>pagmo::random_device::next()\<close> is the caller's business.
\<close>

fun ctor_loop ::
  "'e rng_ops \<Rightarrow> (vector_double \<times> vector_double \<Rightarrow> 32 word \<Rightarrow> exception + vector_double) \<Rightarrow>
   nat \<Rightarrow> 'e population \<Rightarrow> exception + 'e population" where
  "ctor_loop R dv 0 p = Inr p"
| "ctor_loop R dv (Suc k) p =
     (case decision_vector R dv p of
        (Inl e, p1) \<Rightarrow> Inl e
      | (Inr x, p1) \<Rightarrow>
          (case push_back R p1 x of
             (Some e, p2) \<Rightarrow> Inl e
           | (None, p2) \<Rightarrow> ctor_loop R dv k p2))"

definition population_ctor ::
  "'e rng_ops \<Rightarrow> (vector_double \<times> vector_double \<Rightarrow> 32 word \<Rightarrow> exception + vector_double) \<Rightarrow>
   problem \<Rightarrow> nat \<Rightarrow> 32 word \<Rightarrow> exception + 'e population" where
  "population_ctor R dv p pop_size seed =
     ctor_loop R dv pop_size
       \<lparr>m_prob = p, m_ID = [], m_x = [], m_f = [], m_e = engine_ctor R seed, m_seed = seed\<rparr>"

subsection \<open>\<^verbatim>\<open>champion\<close>\<close>

text \<open>
  \<^verbatim>\<open>m_f[idx1] < m_f[idx2]\<close> compares two vectors with \<^verbatim>\<open>operator<\<close> of \<^verbatim>\<open>std::vector\<close>,
  that is \<^verbatim>\<open>std::lexicographical_compare\<close>, which uses \<^verbatim>\<open><\<close> on the elements in both
  directions.
\<close>

fun lexicographical_compare :: "vector_double \<Rightarrow> vector_double \<Rightarrow> bool" where
  "lexicographical_compare [] [] = False"
| "lexicographical_compare [] (b # bs) = True"
| "lexicographical_compare (a # as) [] = False"
| "lexicographical_compare (a # as) (b # bs) =
     (if double_less a b then True
      else if double_less b a then False
      else lexicographical_compare as bs)"

text \<open>
  \<^verbatim>\<open>std::min_element(first, last, comp)\<close> on a non-empty range: the candidate starts at the
  first element and moves to a later element only when that one compares less.
\<close>

fun min_element_from :: "('a \<Rightarrow> 'a \<Rightarrow> bool) \<Rightarrow> 'a \<Rightarrow> 'a list \<Rightarrow> 'a" where
  "min_element_from cmp smallest [] = smallest"
| "min_element_from cmp smallest (y # ys) =
     min_element_from cmp (if cmp y smallest then y else smallest) ys"

text \<open>
  \<^verbatim>\<open>sort_population_con\<close> (\<^verbatim>\<open>utils/constrained.hpp\<close>, missing) is the parameter \<open>sort_con\<close>; it
  may throw. \<^verbatim>\<open>[0]\<close> on the vector it returns has no defined behaviour when that vector is
  empty; the model aborts there. In the unconstrained branch \<open>indexes\<close> is
  \<open>[0, ..., size - 1]\<close> (\<^verbatim>\<open>std::iota\<close>), which is not empty since the size is not zero.
\<close>

definition champion ::
  "(vector_double list \<Rightarrow> nat \<Rightarrow> vector_double \<Rightarrow> exception + nat list) \<Rightarrow>
   'e population \<Rightarrow> vector_double \<Rightarrow> exception + nat" where
  "champion sort_con p tol =
     (if \<not> size_asserts p then Inl assertion_failure
      else if size_pop p = 0 then Inl invalid_argument
      else if get_nobj (m_prob p) > 1 then Inl invalid_argument
      else if get_nc (m_prob p) > 0 then
        (case sort_con (m_f p) (get_nec (m_prob p)) tol of
           Inl e \<Rightarrow> Inl e
         | Inr [] \<Rightarrow> Inl assertion_failure
         | Inr (i # rest) \<Rightarrow> Inr i)
      else
        (case [0..<size_pop p] of
           [] \<Rightarrow> Inl assertion_failure
         | i # indexes \<Rightarrow>
             Inr (min_element_from
                    (\<lambda>idx1 idx2. lexicographical_compare (m_f p ! idx1) (m_f p ! idx2))
                    i indexes)))"

text \<open>
  Modelled from the spec: \<^verbatim>\<open>sort_population_con\<close> (\<^verbatim>\<open>utils/constrained.hpp\<close> is missing).
  The standard constrained ordering of the individuals: feasible first, then by objective,
  ties broken by aggregated constraint violation, using the per-constraint tolerance vector
  \<open>tol\<close>. A fitness vector is the objective followed by the \<open>neq\<close> equality constraints
  \<open>c = 0\<close> and the inequality constraints \<open>c \<le> 0\<close>. The violation of a constraint is the
  amount by which it exceeds its tolerance (\<open>|c| - t\<close> and \<open>c - t\<close>), or zero; a constraint
  is paired with its tolerance by position. An individual is feasible when no constraint
  is violated, and the aggregated violation is the sum of the violations. The result is
  the list of the indices of the individuals in that order.
\<close>

definition viol_eq :: "double \<Rightarrow> double \<Rightarrow> double" where
  "viol_eq c t = (if double_less t (dabs c) then dadd (dabs c) (dneg t) else Fin 0)"

definition viol_ineq :: "double \<Rightarrow> double \<Rightarrow> double" where
  "viol_ineq c t = (if double_less t c then dadd c (dneg t) else Fin 0)"

definition violations :: "vector_double \<Rightarrow> nat \<Rightarrow> vector_double \<Rightarrow> double list" where
  "violations f neq tol =
     map2 viol_eq (take neq (tl f)) (take neq tol) @
     map2 viol_ineq (drop neq (tl f)) (drop neq tol)"

definition feasible :: "vector_double \<Rightarrow> nat \<Rightarrow> vector_double \<Rightarrow> bool" where
  "feasible f neq tol = list_all (\<lambda>v. v = Fin 0) (violations f neq tol)"

definition aggregated_violation :: "vector_double \<Rightarrow> nat \<Rightarrow> vector_double \<Rightarrow> double" where
  "aggregated_violation f neq tol = foldr dadd (violations f neq tol) (Fin 0)"

definition objective :: "vector_double \<Rightarrow> double" where
  "objective f = (case f of [] \<Rightarrow> NaN | a # cs \<Rightarrow> a)"

definition con_less :: "vector_double list \<Rightarrow> nat \<Rightarrow> vector_double \<Rightarrow> nat \<Rightarrow> nat \<Rightarrow> bool" where
  "con_less fs neq tol i j =
     (let fi = fs ! i; fj = fs ! j
      in if feasible fi neq tol \<noteq> feasible fj neq tol then feasible fi neq tol
         else if double_less (objective fi) (objective fj) then True
         else if double_less (objective fj) (objective fi) then False
         else double_less (aggregated_violation fi neq tol) (aggregated_violation fj neq tol))"

fun insert_by :: "('a \<Rightarrow> 'a \<Rightarrow> bool) \<Rightarrow> 'a \<Rightarrow> 'a list \<Rightarrow> 'a list" where
  "insert_by lt x [] = [x]"
| "insert_by lt x (y # ys) = (if lt x y then x # y # ys else y # insert_by lt x ys)"

definition sort_population_con ::
  "vector_double list \<Rightarrow> nat \<Rightarrow> vector_double \<Rightarrow> exception + nat list" where
  "sort_population_con fs neq tol =
     Inr (fold (insert_by (con_less fs neq tol)) [0..<length fs] [])"

subsection \<open>\<^verbatim>\<open>set_xf\<close> and \<^verbatim>\<open>set_x\<close>\<close>

text \<open>
  \<^verbatim>\<open>std::copy(src.begin(), src.end(), dst.begin())\<close> overwrites the first \<open>length src\<close>
  elements of the destination. The two assertions before the calls make the lengths equal;
  \<^verbatim>\<open>set_xf\<close> below aborts when they fail, so the last equation is never reached.
\<close>

fun std_copy :: "'a list \<Rightarrow> 'a list \<Rightarrow> 'a list" where
  "std_copy [] dst = dst"
| "std_copy (s # src) (d # dst) = s # std_copy src dst"
| "std_copy (s # src) [] = []"

definition set_xf ::
  "'e population \<Rightarrow> nat \<Rightarrow> vector_double \<Rightarrow> vector_double \<Rightarrow> exception option \<times> 'e population" where
  "set_xf p i x f =
     (if \<not> size_asserts p then (Some assertion_failure, p)
      else if i \<ge> size_pop p then (Some invalid_argument, p)
      else if length f \<noteq> get_nf (m_prob p) then (Some invalid_argument, p)
      else if length x \<noteq> get_nx (m_prob p) then (Some invalid_argument, p)
      else if length (m_x p ! i) \<noteq> length x then (Some assertion_failure, p)
      else if length (m_f p ! i) \<noteq> length f then (Some assertion_failure, p)
      else (None, p\<lparr>m_x := (m_x p)[i := std_copy x (m_x p ! i)],
                     m_f := (m_f p)[i := std_copy f (m_f p ! i)]\<rparr>))"

text \<open>
  \<^verbatim>\<open>set_xf(i, x, m_prob.fitness(x))\<close>: the argument is evaluated first, and an exception of
  \<^verbatim>\<open>fitness\<close> leaves \<^verbatim>\<open>set_x\<close> before \<^verbatim>\<open>set_xf\<close> is entered.
\<close>

definition set_x :: "'e population \<Rightarrow> nat \<Rightarrow> vector_double \<Rightarrow> exception option \<times> 'e population" where
  "set_x p i x =
     (case fitness (m_prob p) x of
        Inl e \<Rightarrow> (Some e, p)
      | Inr f \<Rightarrow> set_xf p i x f)"

text \<open>
  The invariant of the data model: the three sequences are aligned, and every stored vector
  has the dimension the problem reports.
\<close>

definition pop_inv :: "'e population \<Rightarrow> bool" where
  "pop_inv p \<longleftrightarrow>
     length (m_ID p) = length (m_x p) \<and> length (m_ID p) = length (m_f p) \<and>
     list_all (\<lambda>x. length x = get_nx (m_prob p)) (m_x p) \<and>
     list_all (\<lambda>f. length f = get_nf (m_prob p)) (m_f p)"

subsection \<open>The specification of \<^verbatim>\<open>set_both\<close> and \<^verbatim>\<open>set_x\<close>\<close>

text \<open>
  The operation \<^verbatim>\<open>set_both(i, x, f)\<close> in the words of the specification: it requires
  \<open>i < size\<close>, \<open>|x| = nx\<close> and \<open>|f| = nf\<close>, and overwrites individual \<open>i\<close> in place;
  \<open>None\<close> is a failure. \<open>set_x_spec\<close> is \<^verbatim>\<open>set_both(i, x, problem.fitness(x))\<close>.
\<close>

definition set_both_spec ::
  "'e population \<Rightarrow> nat \<Rightarrow> vector_double \<Rightarrow> vector_double \<Rightarrow> 'e population option" where
  "set_both_spec p i x f =
     (if i < size_pop p \<and> length x = get_nx (m_prob p) \<and> length f = get_nf (m_prob p)
      then Some (p\<lparr>m_x := (m_x p)[i := x], m_f := (m_f p)[i := f]\<rparr>)
      else None)"

definition set_x_spec :: "'e population \<Rightarrow> nat \<Rightarrow> vector_double \<Rightarrow> 'e population option" where
  "set_x_spec p i x =
     (case fitness (m_prob p) x of
        Inl e \<Rightarrow> None
      | Inr f \<Rightarrow> set_both_spec p i x f)"

section \<open>The archipelago of \<^verbatim>\<open>archipelago.hpp\<close>\<close>

subsection \<open>The engine \<^verbatim>\<open>std::mt19937\<close>\<close>

text \<open>
  \<^verbatim>\<open>n_ctor\<close> names its engine: \<^verbatim>\<open>std::mt19937\<close>, the 32-bit Mersenne twister with the
  parameters the C++ standard fixes (word size 32, state size 624, shift size 397, mask
  bits 31, xor mask \<^verbatim>\<open>0x9908b0df\<close>, tempering \<^verbatim>\<open>(11, 0xffffffff)\<close>, \<^verbatim>\<open>(7, 0x9d2c5680)\<close>,
  \<^verbatim>\<open>(15, 0xefc60000)\<close>, \<^verbatim>\<open>18\<close>, initialization multiplier 1812433253). The state is the
  sequence of the last 624 values.

  Seeding: \<open>X\<^sub>0\<close> is the seed and \<open>X\<^sub>i = 1812433253 * (X\<^sub>i\<^sub>-\<^sub>1 XOR (X\<^sub>i\<^sub>-\<^sub>1 >> 30)) + i\<close> for
  \<open>i = 1, ..., 623\<close>, in 32-bit arithmetic.
\<close>

type_synonym mt19937 = "32 word list"

fun mt19937_fill :: "nat \<Rightarrow> 32 word \<Rightarrow> 32 word \<Rightarrow> 32 word list" where
  "mt19937_fill 0 i prev = []"
| "mt19937_fill (Suc k) i prev =
     (let x = 1812433253 * (prev XOR drop_bit 30 prev) + i
      in x # mt19937_fill k (i + 1) x)"

definition mt19937_ctor :: "32 word \<Rightarrow> mt19937" where
  "mt19937_ctor seed_value = seed_value # mt19937_fill 623 1 seed_value"

text \<open>
  One call of the engine: the transition computes the next value from the values 624, 623
  and 227 places back, and the output is that value tempered.
\<close>

definition mt19937_temper :: "32 word \<Rightarrow> 32 word" where
  "mt19937_temper x =
     (let z1 = x XOR (drop_bit 11 x AND 0xFFFFFFFF);
          z2 = z1 XOR (push_bit 7 z1 AND 0x9D2C5680);
          z3 = z2 XOR (push_bit 15 z2 AND 0xEFC60000)
      in z3 XOR drop_bit 18 z3)"

definition mt19937_call :: "mt19937 \<Rightarrow> 32 word \<times> mt19937" where
  "mt19937_call X =
     (let y = (X ! 0 AND 0x80000000) OR (X ! 1 AND 0x7FFFFFFF);
          alpha = 0x9908B0DF * (y AND 1);
          x = X ! 397 XOR drop_bit 1 y XOR alpha
      in (mt19937_temper x, tl X @ [x]))"

text \<open>The first \<open>k\<close> outputs of an engine.\<close>

fun draws :: "nat \<Rightarrow> mt19937 \<Rightarrow> 32 word list" where
  "draws 0 eng = []"
| "draws (Suc k) eng = fst (mt19937_call eng) # draws k (snd (mt19937_call eng))"

subsection \<open>\<^verbatim>\<open>n_ctor\<close> with a seed argument\<close>

text \<open>
  \<^verbatim>\<open>std::uniform_int_distribution<unsigned> udist\<close> covers the whole range of
  \<^verbatim>\<open>unsigned\<close>, which is the range of the engine: \<^verbatim>\<open>udist(eng)\<close> is the next output of the
  engine.
\<close>

definition udist :: "mt19937 \<Rightarrow> 32 word \<times> mt19937" where
  "udist eng = mt19937_call eng"

text \<open>
  \<^verbatim>\<open>boost::numeric_cast<population::size_type>(size)\<close>: the integral argument as a 64-bit
  unsigned size, or an exception when it is negative or too large.
\<close>

definition numeric_cast :: "int \<Rightarrow> exception + nat" where
  "numeric_cast v = (if v < 0 \<or> 2 ^ 64 \<le> v then Inl bad_numeric_cast else Inr (nat v))"

text \<open>
  The loop of \<^verbatim>\<open>n_ctor(n, a, p, size, seed)\<close>. \<^verbatim>\<open>archipelago::push_back\<close> is defined in
  \<^verbatim>\<open>archipelago.cpp\<close> and the island constructor in \<^verbatim>\<open>island.hpp\<close>, both missing:
  \<open>pb s a p sz sd\<close> stands for \<^verbatim>\<open>push_back(a, p, sz, sd)\<close> on the archipelago \<open>s\<close>, and it may
  throw. The integral arguments \<open>size\<close> and \<open>seed\<close> are integers;
  \<^verbatim>\<open>static_cast<unsigned>(seed)\<close> keeps the low 32 bits.
\<close>

fun n_ctor_loop ::
  "('s \<Rightarrow> 'a \<Rightarrow> 'p \<Rightarrow> nat \<Rightarrow> 32 word \<Rightarrow> exception + 's) \<Rightarrow>
   nat \<Rightarrow> 'a \<Rightarrow> 'p \<Rightarrow> int \<Rightarrow> mt19937 \<Rightarrow> 's \<Rightarrow> exception + 's" where
  "n_ctor_loop pb 0 a p size_arg eng s = Inr s"
| "n_ctor_loop pb (Suc k) a p size_arg eng s =
     (case numeric_cast size_arg of
        Inl e \<Rightarrow> Inl e
      | Inr sz \<Rightarrow>
          (let r = udist eng
           in case pb s a p sz (fst r) of
                Inl e \<Rightarrow> Inl e
              | Inr s' \<Rightarrow> n_ctor_loop pb k a p size_arg (snd r) s'))"

definition n_ctor ::
  "('s \<Rightarrow> 'a \<Rightarrow> 'p \<Rightarrow> nat \<Rightarrow> 32 word \<Rightarrow> exception + 's) \<Rightarrow>
   nat \<Rightarrow> 'a \<Rightarrow> 'p \<Rightarrow> int \<Rightarrow> int \<Rightarrow> 's \<Rightarrow> exception + 's" where
  "n_ctor pb n a p size_arg seed s =
     n_ctor_loop pb n a p size_arg (mt19937_ctor (word_of_int seed)) s"

text \<open>
  Modelled from the spec: \<^verbatim>\<open>archipelago::push_back\<close> and the island constructor
  (\<^verbatim>\<open>archipelago.cpp\<close> and \<^verbatim>\<open>island.hpp\<close> are missing). \<^verbatim>\<open>push_back(island_args...)\<close>
  constructs an island from \<open>(Algorithm, Problem, size, seed)\<close> and appends it to the
  islands sequence; it fails with Overflow if the size would exceed the maximum. An island
  is kept as the arguments it was constructed from; \<open>isl_pop_seed\<close> is the seed of its
  population.
\<close>

record ('a, 'p) island =
  isl_algo :: 'a
  isl_prob :: 'p
  isl_pop_size :: nat
  isl_pop_seed :: "32 word"

definition push_back_island ::
  "nat \<Rightarrow> ('a, 'p) island list \<Rightarrow> 'a \<Rightarrow> 'p \<Rightarrow> nat \<Rightarrow> 32 word \<Rightarrow>
   exception + ('a, 'p) island list" where
  "push_back_island max_size islands a p sz sd =
     (if max_size \<le> length islands then Inl overflow_error
      else Inr (islands @
                [\<lparr>isl_algo = a, isl_prob = p, isl_pop_size = sz, isl_pop_seed = sd\<rparr>]))"

subsection \<open>\<^verbatim>\<open>load\<close>\<close>








section \<open>Concrete problems, engines and archives\<close>

text \<open>
  The sphere problem \<open>f(x) = x\<^sub>0\<^sup>2 + x\<^sub>1\<^sup>2\<close> on \<open>[-5, 5]\<^sup>2\<close>: single-objective and
  unconstrained.
\<close>

definition sum_squares :: "vector_double \<Rightarrow> double" where
  "sum_squares x = foldr dadd (map dsquare x) (Fin 0)"

definition sphere :: problem where
  "sphere = \<lparr>fitness = (\<lambda>x. Inr [sum_squares x]),
             get_bounds = ([Fin (- 5), Fin (- 5)], [Fin 5, Fin 5]),
             get_nx = 2, get_nobj = 1, get_nec = 0, get_nic = 0\<rparr>"

text \<open>The same problem with a fitness function that rejects vectors of the wrong length.\<close>

definition checked_sphere :: problem where
  "checked_sphere =
     \<lparr>fitness = (\<lambda>x. if length x \<noteq> 2 then Inl unspecified_exception
                     else Inr [sum_squares x]),
      get_bounds = ([Fin (- 5), Fin (- 5)], [Fin 5, Fin 5]),
      get_nx = 2, get_nobj = 1, get_nec = 0, get_nic = 0\<rparr>"

text \<open>The sphere with the equality constraint \<open>x\<^sub>0 + x\<^sub>1 = 1\<close>.\<close>

definition constrained_sphere :: problem where
  "constrained_sphere =
     \<lparr>fitness = (\<lambda>x. Inr [sum_squares x, foldr dadd x (Fin (- 1))]),
      get_bounds = ([Fin (- 5), Fin (- 5)], [Fin 5, Fin 5]),
      get_nx = 2, get_nobj = 1, get_nec = 1, get_nic = 0\<rparr>"

text \<open>
  An engine interface on \<^verbatim>\<open>std::mt19937\<close>: the 64-bit draw takes two outputs, the first one
  as the high half.
\<close>

definition mt19937_ull :: "mt19937 \<Rightarrow> 64 word \<times> mt19937" where
  "mt19937_ull eng =
     (let hi = mt19937_call eng; lo = mt19937_call (snd hi)
      in (push_bit 32 (ucast (fst hi)) OR ucast (fst lo), snd lo))"

definition mt_rng :: "mt19937 rng_ops" where
  "mt_rng = \<lparr>engine_ctor = mt19937_ctor, uniform_ull = mt19937_ull, uniform_uint = mt19937_call\<rparr>"

text \<open>A generator of decision vectors that returns the lower bounds.\<close>

definition lower_corner :: "vector_double \<times> vector_double \<Rightarrow> 32 word \<Rightarrow> exception + vector_double" where
  "lower_corner bounds seed = Inr (fst bounds)"

text \<open>An ordering of a constrained population that keeps the order of the individuals.\<close>

definition index_order :: "vector_double list \<Rightarrow> nat \<Rightarrow> vector_double \<Rightarrow> exception + nat list" where
  "index_order fs neq tol = Inr [0..<length fs]"

text \<open>
  Three populations of two individuals each; in the last one the fitness of the first
  individual is a NaN.
\<close>

definition pop2 :: "mt19937 population" where
  "pop2 = \<lparr>m_prob = sphere, m_ID = [7, 9],
           m_x = [[Fin 1, Fin 2], [Fin 0, Fin 1]], m_f = [[Fin 5], [Fin 1]],
           m_e = mt19937_ctor 42, m_seed = 42\<rparr>"

definition pop2c :: "mt19937 population" where
  "pop2c = \<lparr>m_prob = constrained_sphere, m_ID = [7, 9],
            m_x = [[Fin 1, Fin 2], [Fin 0, Fin 1]],
            m_f = [[Fin 5, Fin 2], [Fin 1, Fin 0]], m_e = mt19937_ctor 42, m_seed = 42\<rparr>"

definition pop2nan :: "mt19937 population" where
  "pop2nan = \<lparr>m_prob = sphere, m_ID = [7, 9],
              m_x = [[Fin 1, Fin 2], [Fin 0, Fin 1]], m_f = [[NaN], [Fin 1]],
              m_e = mt19937_ctor 42, m_seed = 42\<rparr>"





section \<open>Properties of the population\<close>

subsection \<open>Auxiliary facts\<close>

lemma push_back_None:
  assumes "push_back R p x = (None, p')"
  shows "\<exists>f. fitness (m_prob p) x = Inr f \<and>
             m_ID p' = m_ID p @ [fst (uniform_ull R (m_e p))] \<and>
             m_x p' = m_x p @ [x] \<and>
             m_f p' = m_f p @ [f] \<and>
             m_e p' = snd (uniform_ull R (m_e p)) \<and>
             m_prob p' = m_prob p \<and> m_seed p' = m_seed p"
  using assms
  by (auto simp: push_back_def Let_def split: sum.splits if_splits)

lemma pop_inv_push_back: "pop_inv p \<Longrightarrow> pop_inv (snd (push_back R p x))"
  by (auto simp: push_back_def Let_def pop_inv_def split: sum.splits)

lemma length_std_copy: "length src = length dst \<Longrightarrow> std_copy src dst = src"
  by (induction src dst rule: std_copy.induct) auto

lemma pop_inv_nth_x: "pop_inv p \<Longrightarrow> i < size_pop p \<Longrightarrow> length (m_x p ! i) = get_nx (m_prob p)"
  by (simp add: pop_inv_def size_pop_def list_all_length)

lemma pop_inv_nth_f: "pop_inv p \<Longrightarrow> i < size_pop p \<Longrightarrow> length (m_f p ! i) = get_nf (m_prob p)"
  by (simp add: pop_inv_def size_pop_def list_all_length)

lemma pop_inv_size_asserts: "pop_inv p \<Longrightarrow> size_asserts p"
  by (simp add: pop_inv_def size_asserts_def)

lemma set_xf_ok:
  assumes "pop_inv p" "i < size_pop p" "length x = get_nx (m_prob p)" "length f = get_nf (m_prob p)"
  shows "set_xf p i x f = (None, p\<lparr>m_x := (m_x p)[i := x], m_f := (m_f p)[i := f]\<rparr>)"
  using assms pop_inv_nth_x[OF assms(1,2)] pop_inv_nth_f[OF assms(1,2)] pop_inv_size_asserts[OF assms(1)]
  by (simp add: set_xf_def length_std_copy)

lemma set_xf_fail: "fst (set_xf p i x f) \<noteq> None \<Longrightarrow> snd (set_xf p i x f) = p"
  by (auto simp: set_xf_def split: if_splits)

lemma list_all_update: "list_all P xs \<Longrightarrow> P v \<Longrightarrow> list_all P (xs[i := v])"
  by (cases "i < length xs") (auto simp: list_all_length nth_list_update)

lemma pop_inv_set_xf: "pop_inv p \<Longrightarrow> pop_inv (snd (set_xf p i x f))"
proof (cases "fst (set_xf p i x f)")
  case None
  assume inv: "pop_inv p"
  from None have c: "i < size_pop p" "length x = get_nx (m_prob p)" "length f = get_nf (m_prob p)"
    by (auto simp: set_xf_def split: if_splits)
  show ?thesis using inv c
    by (simp add: set_xf_ok [OF inv c] pop_inv_def list_all_update)
next
  case (Some e)
  assume "pop_inv p"
  then show ?thesis using Some set_xf_fail [of p i x f] by simp
qed

lemma pop_inv_set_x: "pop_inv p \<Longrightarrow> pop_inv (snd (set_x p i x))"
  by (auto simp: set_x_def pop_inv_set_xf split: sum.splits)

lemma pop_inv_decision_vector: "pop_inv p \<Longrightarrow> pop_inv (snd (decision_vector R dv p))"
  by (simp add: decision_vector_def Let_def pop_inv_def)

lemma pop_inv_ctor_loop: "pop_inv p \<Longrightarrow> ctor_loop R dv k p = Inr P \<Longrightarrow> pop_inv P"
proof (induction k arbitrary: p)
  case 0
  then show ?case by simp
next
  case (Suc k)
  obtain r p1 where d: "decision_vector R dv p = (r, p1)" by (cases "decision_vector R dv p")
  with Suc.prems(2) obtain x where r: "r = Inr x" by (cases r) auto
  obtain o2 p2 where pb: "push_back R p1 x = (o2, p2)" by (cases "push_back R p1 x")
  with Suc.prems(2) d r have o2: "o2 = None" and rest: "ctor_loop R dv k p2 = Inr P"
    by (cases o2; simp)+
  have "pop_inv p1" using pop_inv_decision_vector [OF Suc.prems(1), of R dv] d by simp
  then have "pop_inv p2" using pop_inv_push_back [of p1 R x] pb by simp
  then show ?case using Suc.IH rest by blast
qed

lemma pop_inv_ctor: "population_ctor R dv prob n seed = Inr P \<Longrightarrow> pop_inv P"
proof -
  assume a: "population_ctor R dv prob n seed = Inr P"
  have "pop_inv \<lparr>m_prob = prob, m_ID = [], m_x = [], m_f = [], m_e = engine_ctor R seed, m_seed = seed\<rparr>"
    by (simp add: pop_inv_def)
  then show ?thesis using a pop_inv_ctor_loop unfolding population_ctor_def by blast
qed

lemma double_le_trans: "double_le a b \<Longrightarrow> double_le b c \<Longrightarrow> double_le a c"
  by (cases a; cases b; cases c) (auto simp: double_le_def)

lemma double_less_le: "double_less a b \<Longrightarrow> double_le a b"
  by (cases a; cases b) (auto simp: double_le_def)

lemma not_double_less_le: "a \<noteq> NaN \<Longrightarrow> b \<noteq> NaN \<Longrightarrow> \<not> double_less a b \<Longrightarrow> double_le b a"
  by (simp add: double_le_def)

lemma lexicographical_compare_hd:
  "a \<noteq> NaN \<Longrightarrow> b \<noteq> NaN \<Longrightarrow> lexicographical_compare (a # as) (b # bs) \<Longrightarrow> double_le a b"
proof (cases "double_less a b")
  case True
  then show ?thesis by (rule double_less_le)
next
  case False
  assume "a \<noteq> NaN" "b \<noteq> NaN" "lexicographical_compare (a # as) (b # bs)"
  with False show ?thesis by (simp add: double_le_def split: if_splits)
qed

lemma not_lexicographical_compare_hd:
  "a \<noteq> NaN \<Longrightarrow> b \<noteq> NaN \<Longrightarrow> \<not> lexicographical_compare (a # as) (b # bs) \<Longrightarrow> double_le b a"
  by (cases "double_less a b") (auto simp: double_le_def)

lemma min_element_from_mem: "min_element_from cmp s ys \<in> set (s # ys)"
  by (induction ys arbitrary: s) auto

text \<open>
  The loop invariant of \<^verbatim>\<open>std::min_element\<close>, for a comparison \<open>cmp\<close> that decides a
  transitive relation \<open>le\<close> on the set \<open>A\<close>: the candidate is below everything seen so far.
\<close>

lemma min_element_from_least:
  assumes cmp_le: "\<And>a b. a \<in> A \<Longrightarrow> b \<in> A \<Longrightarrow> cmp a b \<Longrightarrow> le a b"
    and ncmp_le: "\<And>a b. a \<in> A \<Longrightarrow> b \<in> A \<Longrightarrow> \<not> cmp a b \<Longrightarrow> le b a"
    and le_trans: "\<And>a b c. a \<in> A \<Longrightarrow> b \<in> A \<Longrightarrow> c \<in> A \<Longrightarrow> le a b \<Longrightarrow> le b c \<Longrightarrow> le a c"
    and "s \<in> A" "set ys \<subseteq> A" "S \<subseteq> A" "\<forall>z\<in>S. le s z"
  shows "\<forall>z\<in>S \<union> {s} \<union> set ys. le (min_element_from cmp s ys) z"
  using assms(4-)
proof (induction ys arbitrary: s S)
  case Nil
  have "le s s" using cmp_le [OF Nil(1) Nil(1)] ncmp_le [OF Nil(1) Nil(1)] by blast
  then show ?case using Nil by simp
next
  case (Cons y ys)
  let ?s' = "if cmp y s then y else s"
  have y: "y \<in> A" and ys: "set ys \<subseteq> A" using Cons.prems(2) by auto
  have s: "s \<in> A" by (rule Cons.prems(1))
  have s': "?s' \<in> A" using y s by simp
  have refl_s: "le s s" using cmp_le [OF s s] ncmp_le [OF s s] by blast
  have refl_y: "le y y" using cmp_le [OF y y] ncmp_le [OF y y] by blast
  have le_s: "le ?s' s" using cmp_le [OF y s] refl_s by simp
  have le_y: "le ?s' y" using ncmp_le [OF y s] refl_y by simp
  have S': "S \<union> {s, y} \<subseteq> A" using Cons.prems(3) s y by simp
  have "\<forall>z\<in>S \<union> {s, y}. le ?s' z"
  proof
    fix z assume z: "z \<in> S \<union> {s, y}"
    show "le ?s' z"
    proof (cases "z \<in> S")
      case True
      then have "le s z" "z \<in> A" using Cons.prems(3,4) by auto
      with le_trans [OF s' s _ le_s] show ?thesis by blast
    next
      case False
      with z le_s le_y show ?thesis by auto
    qed
  qed
  from Cons.IH [OF s' ys S' this]
  show ?case by auto
qed

lemma champion_unconstrained:
  assumes inv: "pop_inv p" and ne: "size_pop p \<noteq> 0"
    and nobj: "get_nobj (m_prob p) \<le> 1" and nc: "get_nc (m_prob p) = 0"
  shows "\<exists>i. champion sort_con p tol = Inr i \<and> i < size_pop p \<and>
             (get_nf (m_prob p) \<noteq> 0 \<and> (\<forall>j < size_pop p. m_f p ! j ! 0 \<noteq> NaN) \<longrightarrow>
                (\<forall>j < size_pop p. double_le (m_f p ! i ! 0) (m_f p ! j ! 0)))"
proof -
  let ?n = "size_pop p"
  let ?cmp = "\<lambda>idx1 idx2. lexicographical_compare (m_f p ! idx1) (m_f p ! idx2)"
  let ?le = "\<lambda>i j. double_le (m_f p ! i ! 0) (m_f p ! j ! 0)"
  let ?r = "min_element_from ?cmp 0 [1..<?n]"
  have upt: "[0..<?n] = 0 # [1..<?n]" using ne by (simp add: upt_conv_Cons)
  have ch: "champion sort_con p tol = Inr ?r"
    using ne nobj nc pop_inv_size_asserts [OF inv] by (simp add: champion_def upt)
  have "?r \<in> set (0 # [1..<?n])" by (rule min_element_from_mem)
  then have r: "?r < ?n" using ne by auto
  have least: "\<forall>j < ?n. ?le ?r j"
    if nf: "get_nf (m_prob p) \<noteq> 0" and nonan: "\<forall>j < ?n. m_f p ! j ! 0 \<noteq> NaN"
  proof -
    have cons: "\<exists>a as. m_f p ! j = a # as \<and> a \<noteq> NaN" if "j < ?n" for j
      using pop_inv_nth_f [OF inv that] nf nonan that by (cases "m_f p ! j") auto
    have "\<forall>z\<in>{} \<union> {0} \<union> set [1..<?n]. ?le ?r z"
    proof (rule min_element_from_least [where A = "{..<?n}" and le = ?le])
      fix a b assume ab: "a \<in> {..<?n}" "b \<in> {..<?n}" and c: "?cmp a b"
      from ab cons [of a] cons [of b] obtain x xs y ys
        where e: "m_f p ! a = x # xs" "x \<noteq> NaN" "m_f p ! b = y # ys" "y \<noteq> NaN"
        by auto
      from lexicographical_compare_hd [OF e(2,4), of xs ys] c e(1,3)
      show "?le a b" by simp
    next
      fix a b assume ab: "a \<in> {..<?n}" "b \<in> {..<?n}" and c: "\<not> ?cmp a b"
      from ab cons [of a] cons [of b] obtain x xs y ys
        where e: "m_f p ! a = x # xs" "x \<noteq> NaN" "m_f p ! b = y # ys" "y \<noteq> NaN"
        by auto
      from not_lexicographical_compare_hd [OF e(2,4), of xs ys] c e(1,3)
      show "?le b a" by simp
    next
      fix a b c assume "?le a b" "?le b c"
      then show "?le a c" by (rule double_le_trans)
    qed (use ne in auto)
    then have "\<forall>z\<in>set [0..<?n]. ?le ?r z" unfolding upt by simp
    then show ?thesis by simp
  qed
  show ?thesis using ch r least by blast
qed

lemma length_insert_by: "length (insert_by lt x ys) = Suc (length ys)"
  by (induction ys) simp_all

lemma set_insert_by: "set (insert_by lt x ys) = insert x (set ys)"
  by (induction ys) auto

lemma fold_insert_by:
  "length (fold (insert_by lt) xs acc) = length xs + length acc \<and>
   set (fold (insert_by lt) xs acc) = set xs \<union> set acc"
  by (induction xs arbitrary: acc) (auto simp: length_insert_by set_insert_by)

lemma sort_population_con_order:
  "\<exists>order. sort_population_con fs neq tol = Inr order \<and> length order = length fs \<and>
           set order = {..<length fs}"
proof -
  let ?order = "fold (insert_by (con_less fs neq tol)) [0..<length fs] []"
  have "length ?order = length fs" and "set ?order = {..<length fs}"
    using fold_insert_by [of "con_less fs neq tol" "[0..<length fs]" "[]"]
    by (simp_all add: atLeast0LessThan)
  moreover have "sort_population_con fs neq tol = Inr ?order"
    by (simp add: sort_population_con_def)
  ultimately show ?thesis by blast
qed

lemma champion_empty_or_multi:
  assumes "pop_inv p" and "size_pop p = 0 \<or> get_nobj (m_prob p) > 1"
  shows "champion sort_con p tol = Inl invalid_argument"
  using assms pop_inv_size_asserts [of p] by (auto simp: champion_def)

lemma champion_constrained:
  assumes inv: "pop_inv p" and ne: "size_pop p \<noteq> 0"
    and nobj: "get_nobj (m_prob p) \<le> 1" and nc: "get_nc (m_prob p) > 0"
  shows "\<exists>i. champion sort_population_con p tol = Inr i \<and> i < size_pop p"
proof -
  from sort_population_con_order [of "m_f p" "get_nec (m_prob p)" tol]
  obtain order where o: "sort_population_con (m_f p) (get_nec (m_prob p)) tol = Inr order"
    "length order = length (m_f p)" "set order = {..<length (m_f p)}" by blast
  have len: "length (m_f p) = size_pop p" using inv by (simp add: pop_inv_def size_pop_def)
  with o(2) ne obtain i rest where c: "order = i # rest" by (cases order) auto
  with o(3) len have "i < size_pop p" by auto
  moreover have "champion sort_population_con p tol = Inr i"
    using o(1) c ne nobj nc pop_inv_size_asserts [OF inv] by (simp add: champion_def)
  ultimately show ?thesis by blast
qed

lemma set_xf_refines_spec:
  assumes inv: "pop_inv p"
  shows "(fst (set_xf p i x f) = None \<longleftrightarrow> set_both_spec p i x f \<noteq> None) \<and>
         (fst (set_xf p i x f) = None \<longrightarrow> set_both_spec p i x f = Some (snd (set_xf p i x f))) \<and>
         (fst (set_xf p i x f) \<noteq> None \<longrightarrow>
            fst (set_xf p i x f) = Some invalid_argument \<and> snd (set_xf p i x f) = p)"
proof (cases "i < size_pop p \<and> length x = get_nx (m_prob p) \<and> length f = get_nf (m_prob p)")
  case True
  then show ?thesis using set_xf_ok [OF inv, of i x f] by (simp add: set_both_spec_def)
next
  case False
  then show ?thesis
    using pop_inv_size_asserts [OF inv] by (auto simp: set_xf_def set_both_spec_def)
qed

lemma ctor_loop_two_runs:
  assumes "ctor_loop R dv k q = Inr P" and "ctor_loop R dv k q' = Inr P'"
    and "m_e q' = m_e q" and "get_bounds (m_prob q') = get_bounds (m_prob q)"
    and "m_ID q' = m_ID q" and "m_x q' = m_x q"
  shows "m_ID P' = m_ID P \<and> m_x P' = m_x P"
  using assms
proof (induction k arbitrary: q q')
  case 0
  then show ?case by simp
next
  case (Suc k)
  let ?r = "uniform_uint R (m_e q)"
  let ?q1 = "q\<lparr>m_e := snd ?r\<rparr>" and ?q1' = "q'\<lparr>m_e := snd ?r\<rparr>"
  have d: "decision_vector R dv q = (dv (get_bounds (m_prob q)) (fst ?r), ?q1)"
    and d': "decision_vector R dv q' = (dv (get_bounds (m_prob q)) (fst ?r), ?q1')"
    using Suc.prems(3,4) by (simp_all add: decision_vector_def Let_def)
  from Suc.prems(1) d obtain x where x: "dv (get_bounds (m_prob q)) (fst ?r) = Inr x"
    by (cases "dv (get_bounds (m_prob q)) (fst ?r)") auto
  obtain o2 q2 where pb: "push_back R ?q1 x = (o2, q2)" by (cases "push_back R ?q1 x")
  obtain o2' q2' where pb': "push_back R ?q1' x = (o2', q2')" by (cases "push_back R ?q1' x")
  from Suc.prems(1) d x pb have o2: "o2 = None" and l: "ctor_loop R dv k q2 = Inr P"
    by (cases o2; simp)+
  from Suc.prems(2) d' x pb' have o2': "o2' = None" and l': "ctor_loop R dv k q2' = Inr P'"
    by (cases o2'; simp)+
  from push_back_None [OF pb [unfolded o2]] push_back_None [OF pb' [unfolded o2']]
  have "m_e q2' = m_e q2" "get_bounds (m_prob q2') = get_bounds (m_prob q2)"
       "m_ID q2' = m_ID q2" "m_x q2' = m_x q2"
    using Suc.prems(3-) by auto
  from Suc.IH [OF l l' this] show ?case .
qed

subsection \<open>\<^verbatim>\<open>push_back\<close>\<close>

text \<open>
  Claim C1. Whenever \<^verbatim>\<open>push_back(x)\<close> returns normally, the size has grown by exactly one,
  the individual appended last has the decision vector \<open>x\<close>, the fitness vector
  \<^verbatim>\<open>problem.fitness(x)\<close> and the ID drawn from the engine of the population, and the
  individuals stored before are unchanged (each of the three sequences is the old one with
  one element appended). The problem and the seed stay; the engine has advanced by the draw.
\<close>

theorem push_back_appends:
  assumes "push_back R p x = (None, p')"
  shows "\<exists>f. fitness (m_prob p) x = Inr f \<and>
             size_pop p' = size_pop p + 1 \<and>
             m_ID p' = m_ID p @ [fst (uniform_ull R (m_e p))] \<and>
             m_x p' = m_x p @ [x] \<and>
             m_f p' = m_f p @ [f] \<and>
             last (m_ID p') = fst (uniform_ull R (m_e p)) \<and>
             last (m_x p') = x \<and> last (m_f p') = f \<and>
             take (size_pop p) (m_ID p') = m_ID p \<and>
             take (length (m_x p)) (m_x p') = m_x p \<and>
             take (length (m_f p)) (m_f p') = m_f p \<and>
             m_e p' = snd (uniform_ull R (m_e p)) \<and>
             m_prob p' = m_prob p \<and> m_seed p' = m_seed p"
  using push_back_None [OF assms] by (auto simp: size_pop_def)

theorem push_back_appends_witness:
  "push_back mt_rng pop2 [Fin 3, Fin 4] = (None, snd (push_back mt_rng pop2 [Fin 3, Fin 4])) \<and>
   size_pop (snd (push_back mt_rng pop2 [Fin 3, Fin 4])) = 3 \<and>
   m_ID (snd (push_back mt_rng pop2 [Fin 3, Fin 4])) =
     [7, 9, fst (mt19937_ull (mt19937_ctor 42))] \<and>
   m_x (snd (push_back mt_rng pop2 [Fin 3, Fin 4])) =
     [[Fin 1, Fin 2], [Fin 0, Fin 1], [Fin 3, Fin 4]] \<and>
   m_f (snd (push_back mt_rng pop2 [Fin 3, Fin 4])) = [[Fin 5], [Fin 1], [Fin 25]]"
proof -
  have e: "push_back mt_rng pop2 [Fin 3, Fin 4] =
             (None, snd (push_back mt_rng pop2 [Fin 3, Fin 4]))"
    by (simp add: push_back_def Let_def pop2_def sphere_def get_nf_def)
  from push_back_appends [OF e] show ?thesis
    using e by (simp add: pop2_def sphere_def sum_squares_def size_pop_def mt_rng_def)
qed





subsection \<open>The invariant\<close>

text \<open>
  Claim C3. The constructor from \<open>(problem, size, seed)\<close>, \<^verbatim>\<open>push_back\<close>, \<^verbatim>\<open>set_xf\<close> and
  \<^verbatim>\<open>set_x\<close> keep the invariant: the three sequences have the same length, every stored
  decision vector has length \<open>nx\<close> and every stored fitness vector has length \<open>nf\<close>. For the
  member functions this holds of the object after the call, whether the call returned or
  threw; for the constructor, of the object constructed.
\<close>

theorem population_invariant_preserved:
  "(pop_inv p \<longrightarrow> pop_inv (snd (push_back R p x))) \<and>
   (pop_inv p \<longrightarrow> pop_inv (snd (set_xf p i x f))) \<and>
   (pop_inv p \<longrightarrow> pop_inv (snd (set_x p i x))) \<and>
   (\<forall>P. population_ctor R dv prob n seed = Inr P \<longrightarrow> pop_inv P)"
  using pop_inv_push_back pop_inv_set_xf pop_inv_set_x pop_inv_ctor by blast

theorem population_invariant_preserved_witness:
  "pop_inv pop2 \<and>
   pop_inv (snd (push_back mt_rng pop2 [Fin 3, Fin 4])) \<and>
   pop_inv (snd (set_xf pop2 1 [Fin 3, Fin 4] [Fin 25])) \<and>
   pop_inv (snd (set_x pop2 1 [Fin 3, Fin 4])) \<and>
   \<not> isl (population_ctor mt_rng lower_corner sphere 2 42) \<and>
   pop_inv (projr (population_ctor mt_rng lower_corner sphere 2 42))"
proof -
  have i: "pop_inv pop2" by (simp add: pop_inv_def pop2_def sphere_def get_nf_def)
  have c: "\<not> isl (population_ctor mt_rng lower_corner sphere 2 42)"
    by (simp add: population_ctor_def numeral_2_eq_2 decision_vector_def push_back_def
                  Let_def sphere_def lower_corner_def get_nf_def)
  then have c': "population_ctor mt_rng lower_corner sphere 2 42 =
                   Inr (projr (population_ctor mt_rng lower_corner sphere 2 42))"
    by (cases "population_ctor mt_rng lower_corner sphere 2 42") simp_all
  from population_invariant_preserved
         [of pop2 mt_rng "[Fin 3, Fin 4]" 1 "[Fin 25]" lower_corner sphere 2 42]
  show ?thesis using i c c' by blast
qed

subsection \<open>\<^verbatim>\<open>champion\<close>\<close>

text \<open>
  Claim C4, as stated, fails: \<^verbatim>\<open>champion\<close> finds its index with \<^verbatim>\<open><\<close> on the fitness
  vectors, and every comparison with a NaN is false. In a population of two individuals
  with the fitness vectors \<open>[NaN]\<close> and \<open>[1]\<close> the second never compares less than the
  first, and \<^verbatim>\<open>champion\<close> returns the index 0, whose first fitness component is not below
  that of individual 1.
\<close>

theorem champion_nan_counterexample:
  "pop_inv pop2nan \<and> size_pop pop2nan \<noteq> 0 \<and> get_nobj (m_prob pop2nan) = 1 \<and>
   get_nec (m_prob pop2nan) = 0 \<and> get_nic (m_prob pop2nan) = 0 \<and>
   champion index_order pop2nan [] = Inr 0 \<and>
   m_f pop2nan ! 0 ! 0 = NaN \<and> m_f pop2nan ! 1 ! 0 = Fin 1 \<and>
   \<not> double_le (m_f pop2nan ! 0 ! 0) (m_f pop2nan ! 1 ! 0)"
  by (simp add: pop_inv_def pop2nan_def sphere_def get_nf_def get_nc_def size_pop_def
                champion_def size_asserts_def upt_rec double_le_def)

text \<open>
  Claim C4, amended. For a non-empty population of a single-objective problem without
  constraints (\<open>nobj = 1\<close>, \<open>nec = nic = 0\<close>) in which no first fitness component is a NaN,
  \<^verbatim>\<open>champion(tol)\<close> returns an index \<open>i\<close> of an individual such that \<open>f[i][0] <= f[j][0]\<close>
  for every individual \<open>j\<close>. Populations are the ones that satisfy the invariant of claim
  C3.
\<close>

theorem champion_unconstrained_minimal:
  assumes "pop_inv p" and "size_pop p \<noteq> 0"
    and "get_nobj (m_prob p) = 1" and "get_nec (m_prob p) = 0" and "get_nic (m_prob p) = 0"
    and "\<forall>j < size_pop p. m_f p ! j ! 0 \<noteq> NaN"
  shows "\<exists>i. champion sort_con p tol = Inr i \<and> i < size_pop p \<and>
             (\<forall>j < size_pop p. double_le (m_f p ! i ! 0) (m_f p ! j ! 0))"
proof -
  have "get_nobj (m_prob p) \<le> 1" "get_nc (m_prob p) = 0" "get_nf (m_prob p) \<noteq> 0"
    using assms(3-5) by (simp_all add: get_nc_def get_nf_def)
  with champion_unconstrained [OF assms(1,2), of sort_con tol] assms(6) show ?thesis by blast
qed

theorem champion_unconstrained_minimal_witness:
  "pop_inv pop2 \<and> size_pop pop2 \<noteq> 0 \<and> get_nobj (m_prob pop2) = 1 \<and>
   get_nec (m_prob pop2) = 0 \<and> get_nic (m_prob pop2) = 0 \<and>
   m_f pop2 ! 0 ! 0 \<noteq> NaN \<and> m_f pop2 ! 1 ! 0 \<noteq> NaN \<and>
   champion index_order pop2 [] = Inr 1 \<and>
   double_le (m_f pop2 ! 1 ! 0) (m_f pop2 ! 0 ! 0) \<and>
   double_le (m_f pop2 ! 1 ! 0) (m_f pop2 ! 1 ! 0)"
proof -
  have h: "pop_inv pop2" "size_pop pop2 \<noteq> 0" "get_nobj (m_prob pop2) = 1"
    "get_nec (m_prob pop2) = 0" "get_nic (m_prob pop2) = 0"
    by (simp_all add: pop_inv_def pop2_def sphere_def get_nf_def size_pop_def)
  have n: "\<forall>j < size_pop pop2. m_f pop2 ! j ! 0 \<noteq> NaN"
    by (simp add: size_pop_def pop2_def less_Suc_eq)
  from champion_unconstrained_minimal [OF h n, of index_order "[]"]
  obtain i where i: "champion index_order pop2 [] = Inr i" "i < size_pop pop2"
    "\<forall>j < size_pop pop2. double_le (m_f pop2 ! i ! 0) (m_f pop2 ! j ! 0)" by blast
  have "champion index_order pop2 [] = Inr 1"
    by (simp add: champion_def size_asserts_def size_pop_def pop2_def sphere_def get_nc_def
                  upt_rec)
  with i have "i = 1" by simp
  with i(3) have "double_le (m_f pop2 ! 1 ! 0) (m_f pop2 ! 0 ! 0)"
    "double_le (m_f pop2 ! 1 ! 0) (m_f pop2 ! 1 ! 0)"
    by (simp_all add: size_pop_def pop2_def double_le_def)
  moreover have "m_f pop2 ! 0 ! 0 \<noteq> NaN" "m_f pop2 ! 1 ! 0 \<noteq> NaN"
    by (simp_all add: pop2_def)
  ultimately show ?thesis using h i(1) \<open>i = 1\<close> by simp
qed

text \<open>
  Claim C5. \<^verbatim>\<open>champion\<close> fails with \<^verbatim>\<open>std::invalid_argument\<close> exactly when the population
  is empty or the problem has more than one objective, and on a non-empty population of a
  problem with at most one objective it returns the index of an individual. For a
  constrained problem the index is the first one of the constrained ordering, with
  \<^verbatim>\<open>sort_population_con\<close> as modelled from the spec. The last two parts hold with any
  function \<open>sort_con\<close> in its place: the two failures, and the normal return for a problem
  without constraints, do not depend on it. Populations are the ones that satisfy the
  invariant of claim C3.
\<close>

theorem champion_raises_iff:
  assumes inv: "pop_inv p"
  shows "(champion sort_population_con p tol = Inl invalid_argument \<longleftrightarrow>
            size_pop p = 0 \<or> get_nobj (m_prob p) > 1) \<and>
         (size_pop p \<noteq> 0 \<and> get_nobj (m_prob p) \<le> 1 \<longrightarrow>
            (\<exists>i. champion sort_population_con p tol = Inr i \<and> i < size_pop p)) \<and>
         (size_pop p = 0 \<or> get_nobj (m_prob p) > 1 \<longrightarrow>
            champion sort_con p tol = Inl invalid_argument) \<and>
         (size_pop p \<noteq> 0 \<and> get_nobj (m_prob p) \<le> 1 \<and> get_nc (m_prob p) = 0 \<longrightarrow>
            (\<exists>i. champion sort_con p tol = Inr i \<and> i < size_pop p))"
proof -
  have fail: "champion sc p tol = Inl invalid_argument"
    if "size_pop p = 0 \<or> get_nobj (m_prob p) > 1" for sc
    using champion_empty_or_multi [OF inv that] .
  have unc: "\<exists>i. champion sc p tol = Inr i \<and> i < size_pop p"
    if "size_pop p \<noteq> 0" "get_nobj (m_prob p) \<le> 1" "get_nc (m_prob p) = 0" for sc
    using champion_unconstrained [OF inv that, of sc tol] by blast
  have ok: "\<exists>i. champion sort_population_con p tol = Inr i \<and> i < size_pop p"
    if ne: "size_pop p \<noteq> 0" and nobj: "get_nobj (m_prob p) \<le> 1"
  proof (cases "get_nc (m_prob p) > 0")
    case True
    from champion_constrained [OF inv ne nobj True] show ?thesis .
  next
    case False
    then have "get_nc (m_prob p) = 0" by simp
    from unc [OF ne nobj this] show ?thesis .
  qed
  have iff: "champion sort_population_con p tol = Inl invalid_argument \<longleftrightarrow>
               size_pop p = 0 \<or> get_nobj (m_prob p) > 1"
  proof
    assume a: "champion sort_population_con p tol = Inl invalid_argument"
    show "size_pop p = 0 \<or> get_nobj (m_prob p) > 1"
    proof (rule ccontr)
      assume "\<not> (size_pop p = 0 \<or> get_nobj (m_prob p) > 1)"
      then have "size_pop p \<noteq> 0" "get_nobj (m_prob p) \<le> 1" by auto
      from ok [OF this] a show False by auto
    qed
  next
    assume "size_pop p = 0 \<or> get_nobj (m_prob p) > 1"
    then show "champion sort_population_con p tol = Inl invalid_argument" by (rule fail)
  qed
  show ?thesis using iff ok fail unc by blast
qed

theorem champion_raises_iff_witness:
  "pop_inv pop2c \<and> size_pop pop2c \<noteq> 0 \<and> get_nobj (m_prob pop2c) \<le> 1 \<and>
   0 < get_nc (m_prob pop2c) \<and>
   sort_population_con (m_f pop2c) (get_nec (m_prob pop2c)) [Fin 0] = Inr [1, 0] \<and>
   champion sort_population_con pop2c [Fin 0] = Inr 1 \<and>
   champion sort_population_con pop2c [Fin 0] \<noteq> Inl invalid_argument \<and>
   pop_inv (pop2c\<lparr>m_ID := [], m_x := [], m_f := []\<rparr>) \<and>
   size_pop (pop2c\<lparr>m_ID := [], m_x := [], m_f := []\<rparr>) = 0 \<and>
   champion sort_population_con (pop2c\<lparr>m_ID := [], m_x := [], m_f := []\<rparr>) [Fin 0] =
     Inl invalid_argument"
proof -
  have inv: "pop_inv pop2c"
    by (simp add: pop_inv_def pop2c_def constrained_sphere_def get_nf_def)
  have nc: "0 < get_nc (m_prob pop2c)"
    by (simp add: pop2c_def constrained_sphere_def get_nc_def)
  have sz: "size_pop pop2c \<noteq> 0" "get_nobj (m_prob pop2c) \<le> 1"
    by (simp_all add: size_pop_def pop2c_def constrained_sphere_def)
  have ord: "sort_population_con (m_f pop2c) (get_nec (m_prob pop2c)) [Fin 0] = Inr [1, 0]"
    by (simp add: sort_population_con_def pop2c_def constrained_sphere_def upt_rec
                  con_less_def feasible_def violations_def viol_eq_def viol_ineq_def
                  aggregated_violation_def objective_def Let_def)
  from champion_raises_iff [OF inv, of "[Fin 0]"] sz
  have c1: "champion sort_population_con pop2c [Fin 0] \<noteq> Inl invalid_argument" by simp
  have c2: "champion sort_population_con pop2c [Fin 0] = Inr 1"
    using ord nc sz by (simp add: champion_def size_asserts_def pop2c_def)
  let ?e = "pop2c\<lparr>m_ID := [], m_x := [], m_f := []\<rparr>"
  have inv0: "pop_inv ?e" by (simp add: pop_inv_def)
  have sz0: "size_pop ?e = 0" by (simp add: size_pop_def)
  from champion_raises_iff [OF inv0, of "[Fin 0]"] sz0
  have c3: "champion sort_population_con ?e [Fin 0] = Inl invalid_argument" by simp
  show ?thesis using inv nc ord sz c1 c2 inv0 sz0 c3 by simp
qed

subsection \<open>\<^verbatim>\<open>set_xf\<close> and \<^verbatim>\<open>set_x\<close>\<close>

text \<open>
  Claim C6. For a population (one that satisfies the invariant), an index \<open>i < size\<close> and
  vectors with \<open>|x| = nx\<close> and \<open>|f| = nf\<close>, \<^verbatim>\<open>set_xf(i, x, f)\<close> returns normally; individual
  \<open>i\<close> has the decision vector \<open>x\<close> and the fitness vector \<open>f\<close> afterwards; every other
  individual, all IDs, the problem, the engine, the seed and the size are unchanged. The
  fitness function of the problem is not called: with any other fitness function \<open>g\<close> in
  its place the call does the same.
\<close>

theorem set_xf_frame:
  assumes inv: "pop_inv p" and i: "i < size_pop p"
    and x: "length x = get_nx (m_prob p)" and f: "length f = get_nf (m_prob p)"
  shows "\<exists>p'. set_xf p i x f = (None, p') \<and>
              m_x p' = (m_x p)[i := x] \<and> m_f p' = (m_f p)[i := f] \<and>
              m_x p' ! i = x \<and> m_f p' ! i = f \<and>
              (\<forall>j. j \<noteq> i \<longrightarrow> m_x p' ! j = m_x p ! j \<and> m_f p' ! j = m_f p ! j) \<and>
              m_ID p' = m_ID p \<and> m_prob p' = m_prob p \<and> m_e p' = m_e p \<and>
              m_seed p' = m_seed p \<and> size_pop p' = size_pop p \<and>
              (\<forall>g. set_xf (p\<lparr>m_prob := (m_prob p)\<lparr>fitness := g\<rparr>\<rparr>) i x f =
                     (None, p'\<lparr>m_prob := (m_prob p)\<lparr>fitness := g\<rparr>\<rparr>))"
proof -
  let ?p' = "p\<lparr>m_x := (m_x p)[i := x], m_f := (m_f p)[i := f]\<rparr>"
  have len: "i < length (m_x p)" "i < length (m_f p)"
    using inv i by (simp_all add: pop_inv_def size_pop_def)
  have g: "set_xf (p\<lparr>m_prob := (m_prob p)\<lparr>fitness := g\<rparr>\<rparr>) i x f =
             (None, ?p'\<lparr>m_prob := (m_prob p)\<lparr>fitness := g\<rparr>\<rparr>)" for g
  proof -
    let ?q = "p\<lparr>m_prob := (m_prob p)\<lparr>fitness := g\<rparr>\<rparr>"
    have "pop_inv ?q" using inv by (simp add: pop_inv_def get_nf_def)
    moreover have "i < size_pop ?q" using i by (simp add: size_pop_def)
    moreover have "length x = get_nx (m_prob ?q)" using x by simp
    moreover have "length f = get_nf (m_prob ?q)" using f by (simp add: get_nf_def)
    ultimately show ?thesis using set_xf_ok [of ?q i x f] by simp
  qed
  show ?thesis
    using set_xf_ok [OF inv i x f] len g by (simp add: size_pop_def)
qed

theorem set_xf_frame_witness:
  "pop_inv pop2 \<and> 1 < size_pop pop2 \<and> length [Fin 3, Fin 4] = get_nx (m_prob pop2) \<and>
   length [Fin 25] = get_nf (m_prob pop2) \<and>
   set_xf pop2 1 [Fin 3, Fin 4] [Fin 25] =
     (None, pop2\<lparr>m_x := [[Fin 1, Fin 2], [Fin 3, Fin 4]], m_f := [[Fin 5], [Fin 25]]\<rparr>)"
proof -
  have h: "pop_inv pop2" "1 < size_pop pop2" "length [Fin 3, Fin 4] = get_nx (m_prob pop2)"
    "length [Fin 25] = get_nf (m_prob pop2)"
    by (simp_all add: pop_inv_def pop2_def sphere_def get_nf_def size_pop_def)
  from set_xf_frame [OF h] obtain p' where p':
    "set_xf pop2 1 [Fin 3, Fin 4] [Fin 25] = (None, p')"
    "m_x p' = (m_x pop2)[1 := [Fin 3, Fin 4]]" "m_f p' = (m_f pop2)[1 := [Fin 25]]"
    "m_ID p' = m_ID pop2" "m_prob p' = m_prob pop2" "m_e p' = m_e pop2" "m_seed p' = m_seed pop2"
    by blast
  then have "p' = pop2\<lparr>m_x := [[Fin 1, Fin 2], [Fin 3, Fin 4]], m_f := [[Fin 5], [Fin 25]]\<rparr>"
    by (cases p') (simp add: pop2_def)
  with h p'(1) show ?thesis by simp
qed

text \<open>
  Claim C7. \<^verbatim>\<open>set_x(i, x)\<close> is \<^verbatim>\<open>set_xf(i, x, problem.fitness(x))\<close>: an exception of the
  fitness function leaves the population as it was, and otherwise the outcome and the
  resulting population are those of \<^verbatim>\<open>set_xf\<close>. Against the specification of \<^verbatim>\<open>set_both\<close>,
  on a population that satisfies the invariant: \<^verbatim>\<open>set_x\<close> returns normally exactly when
  \<^verbatim>\<open>set_both(i, x, problem.fitness(x))\<close> succeeds, the resulting populations are equal
  then, and a failing \<^verbatim>\<open>set_x\<close> leaves the population unchanged.
\<close>

theorem set_x_equiv:
  "set_x p i x =
     (case fitness (m_prob p) x of Inl e \<Rightarrow> (Some e, p) | Inr f \<Rightarrow> set_xf p i x f) \<and>
   (pop_inv p \<longrightarrow>
      (fst (set_x p i x) = None \<longleftrightarrow> set_x_spec p i x \<noteq> None) \<and>
      (fst (set_x p i x) = None \<longrightarrow> set_x_spec p i x = Some (snd (set_x p i x))) \<and>
      (fst (set_x p i x) \<noteq> None \<longrightarrow> snd (set_x p i x) = p))"
  using set_xf_refines_spec [of p i x]
  by (auto simp: set_x_def set_x_spec_def split: sum.splits)

theorem set_x_equiv_witness:
  "pop_inv pop2 \<and>
   set_x pop2 0 [Fin 3, Fin 4] =
     (None, pop2\<lparr>m_x := [[Fin 3, Fin 4], [Fin 0, Fin 1]], m_f := [[Fin 25], [Fin 1]]\<rparr>) \<and>
   set_x_spec pop2 0 [Fin 3, Fin 4] =
     Some (pop2\<lparr>m_x := [[Fin 3, Fin 4], [Fin 0, Fin 1]], m_f := [[Fin 25], [Fin 1]]\<rparr>) \<and>
   set_x pop2 5 [Fin 3, Fin 4] = (Some invalid_argument, pop2) \<and>
   set_x_spec pop2 5 [Fin 3, Fin 4] = None"
proof -
  have inv: "pop_inv pop2" by (simp add: pop_inv_def pop2_def sphere_def get_nf_def)
  have ok: "set_x pop2 0 [Fin 3, Fin 4] =
      (None, pop2\<lparr>m_x := [[Fin 3, Fin 4], [Fin 0, Fin 1]], m_f := [[Fin 25], [Fin 1]]\<rparr>)"
    by (simp add: set_x_def set_xf_def size_asserts_def size_pop_def pop2_def sphere_def
                  sum_squares_def get_nf_def)
  have bad: "set_x pop2 5 [Fin 3, Fin 4] = (Some invalid_argument, pop2)"
    by (simp add: set_x_def set_xf_def size_asserts_def size_pop_def pop2_def sphere_def
                  sum_squares_def get_nf_def)
  from set_x_equiv [of pop2 0 "[Fin 3, Fin 4]"] set_x_equiv [of pop2 5 "[Fin 3, Fin 4]"]
    inv ok bad
  show ?thesis by simp
qed

subsection \<open>Determinism of the constructor\<close>

text \<open>
  Claim C8. Two constructions \<^verbatim>\<open>population(problem, size, seed)\<close> with the same size and the
  same seed give the same sequence of IDs and the same sequence of decision vectors. The
  fitness function is a function of the decision vector (deterministic), and the statement
  is proved for two problems that need only agree on their bounds: the IDs and the decision
  vectors do not depend on the fitness values. The claim is the case of one and the same
  problem, \<open>p' = p\<close>.
\<close>

theorem population_ctor_two_runs:
  assumes "population_ctor R dv p n seed = Inr P"
    and "population_ctor R dv p' n seed = Inr P'"
    and "get_bounds p' = get_bounds p"
  shows "m_ID P' = m_ID P \<and> m_x P' = m_x P"
proof (rule ctor_loop_two_runs)
  show "ctor_loop R dv n \<lparr>m_prob = p, m_ID = [], m_x = [], m_f = [],
          m_e = engine_ctor R seed, m_seed = seed\<rparr> = Inr P"
    using assms(1) by (simp add: population_ctor_def)
  show "ctor_loop R dv n \<lparr>m_prob = p', m_ID = [], m_x = [], m_f = [],
          m_e = engine_ctor R seed, m_seed = seed\<rparr> = Inr P'"
    using assms(2) by (simp add: population_ctor_def)
qed (simp_all add: assms(3))

theorem population_ctor_two_runs_witness:
  "\<not> isl (population_ctor mt_rng lower_corner sphere 2 42) \<and>
   \<not> isl (population_ctor mt_rng lower_corner checked_sphere 2 42) \<and>
   get_bounds checked_sphere = get_bounds sphere \<and>
   m_ID (projr (population_ctor mt_rng lower_corner checked_sphere 2 42)) =
     m_ID (projr (population_ctor mt_rng lower_corner sphere 2 42)) \<and>
   m_x (projr (population_ctor mt_rng lower_corner checked_sphere 2 42)) =
     m_x (projr (population_ctor mt_rng lower_corner sphere 2 42)) \<and>
   m_x (projr (population_ctor mt_rng lower_corner sphere 2 42)) =
     [[Fin (- 5), Fin (- 5)], [Fin (- 5), Fin (- 5)]]"
proof -
  let ?A = "population_ctor mt_rng lower_corner sphere 2 42"
  let ?B = "population_ctor mt_rng lower_corner checked_sphere 2 42"
  have a: "\<not> isl ?A"
    by (simp add: population_ctor_def numeral_2_eq_2 decision_vector_def push_back_def
                  Let_def sphere_def lower_corner_def get_nf_def)
  have b: "\<not> isl ?B"
    by (simp add: population_ctor_def numeral_2_eq_2 decision_vector_def push_back_def
                  Let_def checked_sphere_def lower_corner_def get_nf_def)
  have a': "?A = Inr (projr ?A)" using a by (cases ?A) simp_all
  have b': "?B = Inr (projr ?B)" using b by (cases ?B) simp_all
  have bd: "get_bounds checked_sphere = get_bounds sphere"
    by (simp add: checked_sphere_def sphere_def)
  have x: "m_x (projr ?A) = [[Fin (- 5), Fin (- 5)], [Fin (- 5), Fin (- 5)]]"
    by (simp add: population_ctor_def numeral_2_eq_2 decision_vector_def push_back_def
                  Let_def sphere_def lower_corner_def get_nf_def)
  from population_ctor_two_runs [OF a' b' bd]
  show ?thesis using a b bd x by simp
qed

section \<open>Properties of the archipelago\<close>

subsection \<open>Seeds of the islands\<close>

lemma length_draws: "length (draws k eng) = k"
  by (induction k arbitrary: eng) simp_all

lemma n_ctor_loop_seeds:
  assumes "0 \<le> size_arg" "size_arg < 2 ^ 64" "length s + k \<le> max_size"
  shows "n_ctor_loop (push_back_island max_size) k a p size_arg eng s =
           Inr (s @ map (\<lambda>sd. \<lparr>isl_algo = a, isl_prob = p, isl_pop_size = nat size_arg,
                                isl_pop_seed = sd\<rparr>)
                        (draws k eng))"
  using assms(3)
proof (induction k arbitrary: eng s)
  case 0
  then show ?case by simp
next
  case (Suc k)
  let ?s' = "s @ [\<lparr>isl_algo = a, isl_prob = p, isl_pop_size = nat size_arg,
                    isl_pop_seed = fst (mt19937_call eng)\<rparr>]"
  have nc: "numeric_cast size_arg = Inr (nat size_arg)"
    using assms(1,2) by (simp add: numeric_cast_def)
  have pb: "push_back_island max_size s a p (nat size_arg) (fst (udist eng)) = Inr ?s'"
    using Suc.prems by (simp add: push_back_island_def udist_def)
  have "length ?s' + k \<le> max_size" using Suc.prems by simp
  from Suc.IH [OF this, of "snd (mt19937_call eng)"] nc pb
  show ?case by (simp add: Let_def udist_def)
qed

text \<open>
  Claim C9, as stated, fails: the seeds drawn for the islands need not be pairwise
  distinct. With the seed 2097125 the second and the fourth output of the engine are both
  2225052865, so \<^verbatim>\<open>archipelago(4, algo, prob, 1, 2097125)\<close> gives the islands 1 and 3 the
  same population seed.
\<close>

theorem n_ctor_seeds_counterexample:
  "map isl_pop_seed (projr (n_ctor (push_back_island 4) 4 () () 1 2097125 [])) =
     [1852692098, 2225052865, 3308908905, 2225052865] \<and>
   \<not> distinct (map isl_pop_seed (projr (n_ctor (push_back_island 4) 4 () () 1 2097125 [])))"
proof -
  have "map isl_pop_seed (projr (n_ctor (push_back_island 4) 4 () () 1 2097125 [])) =
     [1852692098, 2225052865, 3308908905, 2225052865]"
    by code_simp
  then show ?thesis by simp
qed

text \<open>
  Claim C9, amended. \<^verbatim>\<open>archipelago(n, algo, prob, size, seed)\<close> does not hand the seed to
  the islands: it seeds a \<^verbatim>\<open>std::mt19937\<close> with it and gives island \<open>i\<close> the output number
  \<open>i\<close> of that engine as its population seed, in the order of the islands. Nothing makes
  these seeds distinct. The statement is for a size argument in the range of the size type
  and \<open>n\<close> within the maximal size of the archipelago, where no call of \<^verbatim>\<open>push_back\<close>
  fails.
\<close>

theorem n_ctor_seeds:
  assumes "0 \<le> size_arg" and "size_arg < 2 ^ 64" and "n \<le> max_size"
  shows "\<exists>islands. n_ctor (push_back_island max_size) n a p size_arg seed [] = Inr islands \<and>
           length islands = n \<and>
           map isl_pop_seed islands = draws n (mt19937_ctor (word_of_int seed)) \<and>
           (\<forall>i < n. isl_algo (islands ! i) = a \<and> isl_prob (islands ! i) = p \<and>
                     isl_pop_size (islands ! i) = nat size_arg)"
proof -
  have "length ([] :: ('a, 'b) island list) + n \<le> max_size" using assms(3) by simp
  from n_ctor_loop_seeds [OF assms(1,2) this]
  show ?thesis by (simp add: n_ctor_def length_draws comp_def)
qed

theorem n_ctor_seeds_witness:
  "(0 :: int) \<le> 3 \<and> (3 :: int) < 2 ^ 64 \<and> (2 :: nat) \<le> 10 \<and>
   \<not> isl (n_ctor (push_back_island 10) 2 () () 3 42 []) \<and>
   length (projr (n_ctor (push_back_island 10) 2 () () 3 42 [])) = 2 \<and>
   map isl_pop_seed (projr (n_ctor (push_back_island 10) 2 () () 3 42 [])) =
     draws 2 (mt19937_ctor 42)"
proof -
  have h: "(0 :: int) \<le> 3" "(3 :: int) < 2 ^ 64" "(2 :: nat) \<le> 10" by simp_all
  from n_ctor_seeds [OF h, of "()" "()" 42] show ?thesis by auto
qed

subsection \<open>\<^verbatim>\<open>load\<close>\<close>




end
